theory Spec2Isabelle
  imports Main "HOL-Library.Word"
begin

section \<open>Data model of \<^verbatim>\<open>impl/internal/dht/getput.go\<close>\<close>

text \<open>
  Go's \<^verbatim>\<open>int64\<close> is a 64-bit word read in two's complement: the comparisons
  \<^verbatim>\<open>v.Seq >= ret.Seq\<close> and \<^verbatim>\<open>v.Seq > autoSeq\<close> of the source are the signed orders
  \<open>\<le>s\<close> and \<open><s\<close>. Byte slices and byte arrays are lists of 8-bit words.
\<close>

type_synonym byte = "8 word"
type_synonym bytes = "byte list"
type_synonym int64 = "64 word"

text \<open>\<^verbatim>\<open>type FullGetResult struct { Seq int64; V bencode.Bytes; Sig [64]byte; Mutable bool }\<close>\<close>

record FullGetResult =
  Seq :: int64
  V :: bytes
  Sig :: bytes
  Mutable :: bool

text \<open>The zero value of the struct, which a named result holds before any assignment.\<close>

definition zeroFullGetResult :: FullGetResult where
  "zeroFullGetResult = \<lparr>Seq = 0, V = [], Sig = replicate 64 0, Mutable = False\<rparr>"

text \<open>\<^verbatim>\<open>math.MinInt64\<close>\<close>

definition MinInt64 :: int64 where
  "MinInt64 = - (2 ^ 63)"

text \<open>
  The errors the two entry points can return. \<^verbatim>\<open>ctx.Err()\<close> is one of the two context
  errors; \<open>ValueNotFound\<close> is \<^verbatim>\<open>errors.New("value not found")\<close>; \<open>StartingNodesErr\<close> is
  whatever \<^verbatim>\<open>s.TraversalStartingNodes()\<close> reported; \<open>PutErr\<close> is the \<^verbatim>\<open>res.ToError()\<close> of
  a write to one node.
\<close>

datatype ctx_error = Canceled | DeadlineExceeded

datatype error =
    ValueNotFound
  | CtxErr ctx_error
  | StartingNodesErr string
  | PutErr string

text \<open>
  A call either never gets past a \<^verbatim>\<open>select\<close> (no case ever becomes ready), panics, or
  returns.
\<close>

datatype 'a run = Blocks | Panics | Returns 'a

section \<open>The \<^verbatim>\<open>select\<close> statement\<close>

text \<open>
  Both loops wait in a \<^verbatim>\<open>select\<close> over the same three channels. An \<open>event\<close> is the case
  the statement takes: \<^verbatim>\<open>case <-op.Stalled()\<close>, \<^verbatim>\<open>case v := <-vChan\<close> with the value
  received, or \<^verbatim>\<open>case <-ctx.Done()\<close> with the value \<^verbatim>\<open>ctx.Err()\<close> then has.
\<close>

datatype event = Stalled | Value FullGetResult | Done ctx_error

text \<open>
  What the statement finds when it runs: whether the stalled channel can be received
  from, the candidate a query goroutine is blocked sending on \<^verbatim>\<open>vChan\<close> (if any), and
  the context's error once the context is done. Go takes any one of the cases that can
  proceed (a uniform pseudo-random choice), with no priority among them: \<open>can_proceed\<close>
  says which cases those are.
\<close>

record chans =
  stalled_ready :: bool
  sending :: "FullGetResult option"
  ctx_done :: "ctx_error option"

fun can_proceed :: "chans \<Rightarrow> event \<Rightarrow> bool" where
  "can_proceed c Stalled = stalled_ready c"
| "can_proceed c (Value v) = (sending c = Some v)"
| "can_proceed c (Done e) = (ctx_done c = Some e)"

section \<open>\<^verbatim>\<open>startGetTraversal\<close> and its per-node query\<close>

text \<open>
  The fields of a reply (\<^verbatim>\<open>res.Reply.R\<close>, a \<^verbatim>\<open>*krpc.Return\<close>) that the query function
  reads: the value \<^verbatim>\<open>r.V\<close>, the public key \<^verbatim>\<open>r.K\<close>, the signature \<^verbatim>\<open>r.Sig\<close> and the
  sequence number \<^verbatim>\<open>r.Seq\<close>, which is a pointer (\<^verbatim>\<open>*int64\<close>) and may be nil.
\<close>

record Return =
  R_V :: bytes
  R_K :: bytes
  R_Sig :: bytes
  R_Seq :: "int64 option"

text \<open>
  A value of interface type (\<^verbatim>\<open>tqr.ClosestData\<close>, \<^verbatim>\<open>elem.Data\<close>): nil, a string, or a
  value of some other dynamic type.
\<close>

datatype any = AnyNil | AnyString string | AnyOther bytes

text \<open>
  The two forms of the type assertion \<^verbatim>\<open>x.(string)\<close>. The two-result form never panics
  and yields the zero string when \<open>x\<close> does not hold a string; the one-result form panics
  then.
\<close>

fun assert_string_ok :: "any \<Rightarrow> string \<times> bool" where
  "assert_string_ok (AnyString s) = (s, True)"
| "assert_string_ok AnyNil = ([], False)"
| "assert_string_ok (AnyOther b) = ([], False)"

fun assert_string :: "any \<Rightarrow> string run" where
  "assert_string (AnyString s) = Returns s"
| "assert_string AnyNil = Panics"
| "assert_string (AnyOther b) = Panics"

text \<open>\<^verbatim>\<open>traversal.QueryResult\<close>, over the type \<open>'n\<close> of node infos.\<close>

record 'n QueryResult =
  ResponseFrom :: "'n option"
  ClosestData :: any
  Nodes :: "'n list"
  Nodes6 :: "'n list"

text \<open>
  \<^verbatim>\<open>dht.QueryResult\<close>, the result \<^verbatim>\<open>res\<close> of \<^verbatim>\<open>s.Get\<close>: the reply, and what the library
  method \<^verbatim>\<open>res.TraversalQueryResult(addr)\<close> makes of it for the address queried.
\<close>

record ('a, 'n) dhtQueryResult =
  Reply_R :: "Return option"
  TraversalQueryResult :: "'a \<Rightarrow> 'n QueryResult"

text \<open>
  Lines 49 to 74: what the query function offers on \<^verbatim>\<open>vChan\<close> for a reply \<open>r\<close>.
  \<open>sha1_Sum\<close> and \<open>bep44_Verify\<close> are the two library functions of these names. The
  second operand of \<^verbatim>\<open>&&\<close> is evaluated only when the first holds, and it dereferences
  \<^verbatim>\<open>r.Seq\<close>: on a nil pointer that panics. The logging of the last branch is not
  modelled. \<^verbatim>\<open>append(r.K[:], salt...)\<close> is the key followed by the salt.
\<close>

definition classify ::
  "(bytes \<Rightarrow> bytes) \<Rightarrow> (bytes \<Rightarrow> bytes \<Rightarrow> int64 \<Rightarrow> bytes \<Rightarrow> bytes \<Rightarrow> bool) \<Rightarrow>
   bytes \<Rightarrow> bytes \<Rightarrow> Return \<Rightarrow> FullGetResult option run" where
  "classify sha1_Sum bep44_Verify target salt r =
     (if sha1_Sum (R_V r) = target then
        Returns (Some \<lparr>Seq = 0, V = R_V r, Sig = R_Sig r, Mutable = False\<rparr>)
      else if sha1_Sum (R_K r @ salt) = target then
        (case R_Seq r of
           None \<Rightarrow> Panics
         | Some q \<Rightarrow>
             if bep44_Verify (R_K r) salt q (R_V r) (R_Sig r) then
               Returns (Some \<lparr>Seq = q, V = R_V r, Sig = R_Sig r, Mutable = True\<rparr>)
             else Returns None)
      else Returns None)"

text \<open>
  Lines 76 to 79. The first result of the two-result assertion is a \<^verbatim>\<open>string\<close>; stored
  in the interface-typed field \<^verbatim>\<open>tqr.ClosestData\<close> it is an interface value holding a
  string, also when that string is empty. The comparison with nil that follows is on this
  stored value.
\<close>

definition closestData :: "'n QueryResult \<Rightarrow> 'n QueryResult" where
  "closestData tqr =
     (let tqr1 = tqr\<lparr>ClosestData := AnyString (fst (assert_string_ok (ClosestData tqr)))\<rparr>
      in if ClosestData tqr1 = AnyNil then tqr1\<lparr>ResponseFrom := None\<rparr> else tqr1)"

text \<open>
  What the closure \<^verbatim>\<open>DoQuery\<close> captures from \<^verbatim>\<open>startGetTraversal\<close>'s arguments, with
  the \<^verbatim>\<open>Alpha\<close> of the operation.
\<close>

record OperationInput =
  Alpha :: nat
  Target :: bytes
  query_seq :: "int64 option"
  query_salt :: bytes

text \<open>
  \<^verbatim>\<open>DoQuery\<close> (lines 40 to 81) for one address: \<open>sGet\<close> is \<^verbatim>\<open>s.Get\<close>, called with the
  target and the sequence hint of the operation. The result is the candidate offered on
  \<^verbatim>\<open>vChan\<close> (the send is abandoned when the query's context is done first) and the query
  result handed back to the traversal.
\<close>

definition DoQuery ::
  "(bytes \<Rightarrow> bytes) \<Rightarrow> (bytes \<Rightarrow> bytes \<Rightarrow> int64 \<Rightarrow> bytes \<Rightarrow> bytes \<Rightarrow> bool) \<Rightarrow>
   ('a \<Rightarrow> bytes \<Rightarrow> int64 option \<Rightarrow> ('a, 'n) dhtQueryResult) \<Rightarrow>
   OperationInput \<Rightarrow> 'a \<Rightarrow> (FullGetResult option \<times> 'n QueryResult) run" where
  "DoQuery sha1_Sum bep44_Verify sGet inp addr =
     (let res = sGet addr (Target inp) (query_seq inp) in
      case Reply_R res of
        None \<Rightarrow> Returns (None, closestData (TraversalQueryResult res addr))
      | Some r \<Rightarrow>
          (case classify sha1_Sum bep44_Verify (Target inp) (query_salt inp) r of
             Blocks \<Rightarrow> Blocks
           | Panics \<Rightarrow> Panics
           | Returns c \<Rightarrow> Returns (c, closestData (TraversalQueryResult res addr))))"

text \<open>
  \<^verbatim>\<open>startGetTraversal\<close> (lines 31 to 97): the operation it starts, and its error, which
  is the one of \<^verbatim>\<open>s.TraversalStartingNodes()\<close> (\<open>starting\<close>). The goroutine of lines
  86 to 92 only calls \<^verbatim>\<open>op.Stop()\<close> on the library's operation; what the channels then
  show is part of what each \<^verbatim>\<open>select\<close> finds. Calls of the logger are not modelled.
\<close>

definition startGetTraversal ::
  "bytes \<Rightarrow> int64 option \<Rightarrow> bytes \<Rightarrow> string option \<Rightarrow> OperationInput \<times> error option" where
  "startGetTraversal target seq salt starting =
     (\<lparr>Alpha = 15, Target = target, query_seq = seq, query_salt = salt\<rparr>,
      map_option StartingNodesErr starting)"

section \<open>\<^verbatim>\<open>Get\<close>\<close>

text \<open>
  The loop at the label \<^verbatim>\<open>receiveResults\<close> (lines 110 to 129), run on the cases its
  \<^verbatim>\<open>select\<close> takes one after the other. \<open>ret\<close> and \<open>gotValue\<close> are the two variables of
  the source; the error returned is the named result \<^verbatim>\<open>err\<close>, which is nil when the
  loop starts. With no event left the statement waits for ever.
\<close>

fun receiveResults ::
  "event list \<Rightarrow> FullGetResult \<Rightarrow> bool \<Rightarrow> (FullGetResult \<times> error option) run" where
  "receiveResults [] ret gotValue = Blocks"
| "receiveResults (Stalled # es) ret gotValue =
     Returns (ret, if \<not> gotValue then Some ValueNotFound else None)"
| "receiveResults (Value v # es) ret gotValue =
     (if \<not> Mutable v then Returns (v, None)
      else receiveResults es (if Seq ret \<le>s Seq v then v else ret) True)"
| "receiveResults (Done e # es) ret gotValue = Returns (ret, Some (CtxErr e))"

text \<open>
  \<^verbatim>\<open>Get\<close> (lines 99 to 133). On an error of \<^verbatim>\<open>startGetTraversal\<close> the named results
  are returned as they are (zero item, nil stats). \<open>op_stats\<close> is what \<^verbatim>\<open>op.Stats()\<close>
  returns after \<^verbatim>\<open>op.Stop()\<close>. The result is the triple \<^verbatim>\<open>(ret, stats, err)\<close>.
\<close>

definition Get ::
  "bytes \<Rightarrow> int64 option \<Rightarrow> bytes \<Rightarrow> string option \<Rightarrow> 's \<Rightarrow> event list \<Rightarrow>
   (FullGetResult \<times> 's option \<times> error option) run" where
  "Get target seq salt starting op_stats events =
     (case snd (startGetTraversal target seq salt starting) of
        Some e \<Rightarrow> Returns (zeroFullGetResult, None, Some e)
      | None \<Rightarrow>
          (case receiveResults events (zeroFullGetResult\<lparr>Seq := MinInt64\<rparr>) False of
             Blocks \<Rightarrow> Blocks
           | Panics \<Rightarrow> Panics
           | Returns (ret, err) \<Rightarrow> Returns (ret, Some op_stats, err)))"

section \<open>\<^verbatim>\<open>Put\<close>\<close>

text \<open>\<^verbatim>\<open>k_nearest_nodes.Elem\<close>: a node of the closest set and the data kept with it.\<close>

record 'a Elem =
  Addr :: 'a
  Data :: any

text \<open>
  The loop at the label \<^verbatim>\<open>notDone\<close> (lines 151 to 164), in the source's case order;
  \<open>autoSeq\<close> starts at 0 (\<^verbatim>\<open>var autoSeq int64\<close>). It returns \<open>autoSeq\<close> and the named
  result \<^verbatim>\<open>err\<close>.
\<close>

fun notDone :: "event list \<Rightarrow> int64 \<Rightarrow> (int64 \<times> error option) run" where
  "notDone [] autoSeq = Blocks"
| "notDone (Value v # es) autoSeq =
     notDone es (if Mutable v \<and> autoSeq <s Seq v then Seq v else autoSeq)"
| "notDone (Stalled # es) autoSeq = Returns (autoSeq, None)"
| "notDone (Done e # es) autoSeq = Returns (autoSeq, Some (CtxErr e))"

text \<open>
  The fan-out (lines 168 to 183). Every element of the closest set gets a goroutine that
  asserts \<^verbatim>\<open>elem.Data.(string)\<close>, calls \<^verbatim>\<open>s.Put\<close> (\<open>sPut\<close>, giving the write's error if
  any) and assigns \<^verbatim>\<open>err = res.ToError()\<close>: the \<^verbatim>\<open>err\<close> assigned is the named result
  of \<^verbatim>\<open>Put\<close>, which the closure captures. The elements are listed in the order in which
  their goroutines make that assignment, so that the value left in \<^verbatim>\<open>err\<close> after
  \<^verbatim>\<open>wg.Wait()\<close> is the one of the last. \<open>sent\<close> collects the calls of \<^verbatim>\<open>s.Put\<close>.
\<close>

fun fanOut ::
  "('a \<Rightarrow> 'p \<Rightarrow> string \<Rightarrow> string option) \<Rightarrow> 'p \<Rightarrow> 'a Elem list \<Rightarrow> error option \<Rightarrow>
   ('a \<times> 'p \<times> string) list \<Rightarrow> (error option \<times> ('a \<times> 'p \<times> string) list) run" where
  "fanOut sPut put [] err sent = Returns (err, sent)"
| "fanOut sPut put (elem # elems) err sent =
     (case assert_string (Data elem) of
        Blocks \<Rightarrow> Blocks
      | Panics \<Rightarrow> Panics
      | Returns token \<Rightarrow>
          fanOut sPut put elems (map_option PutErr (sPut (Addr elem) put token))
            (sent @ [(Addr elem, put, token)]))"

text \<open>
  What a call of \<^verbatim>\<open>Put\<close> that returns has done: its results \<^verbatim>\<open>(stats, err)\<close>, the
  operation it started, the arguments \<^verbatim>\<open>seqToPut\<close> was called with, and the writes sent.
\<close>

record ('s, 'a, 'p) put_run =
  ret_stats :: "'s option"
  ret_err :: "error option"
  started :: OperationInput
  built :: "int64 list"
  sent_writes :: "('a \<times> 'p \<times> string) list"

text \<open>
  \<^verbatim>\<open>Put\<close> (lines 137 to 186). \<open>closest\<close> is \<^verbatim>\<open>op.Closest()\<close> after \<^verbatim>\<open>op.Stop()\<close>. The
  traversal is started with a nil sequence hint.
\<close>

definition Put ::
  "bytes \<Rightarrow> bytes \<Rightarrow> (int64 \<Rightarrow> 'p) \<Rightarrow> string option \<Rightarrow> 's \<Rightarrow> event list \<Rightarrow> 'a Elem list \<Rightarrow>
   ('a \<Rightarrow> 'p \<Rightarrow> string \<Rightarrow> string option) \<Rightarrow> ('s, 'a, 'p) put_run run" where
  "Put target salt seqToPut starting op_stats events closest sPut =
     (let (inp, err0) = startGetTraversal target None salt starting in
      case err0 of
        Some e \<Rightarrow>
          Returns \<lparr>ret_stats = None, ret_err = Some e, started = inp, built = [],
                   sent_writes = []\<rparr>
      | None \<Rightarrow>
          (case notDone events 0 of
             Blocks \<Rightarrow> Blocks
           | Panics \<Rightarrow> Panics
           | Returns (autoSeq, err1) \<Rightarrow>
               (case fanOut sPut (seqToPut autoSeq) closest err1 [] of
                  Blocks \<Rightarrow> Blocks
                | Panics \<Rightarrow> Panics
                | Returns (err2, sent) \<Rightarrow>
                    Returns \<lparr>ret_stats = Some op_stats, ret_err = err2, started = inp,
                             built = [autoSeq], sent_writes = sent\<rparr>)))"

section \<open>Auxiliary definitions\<close>

text \<open>One step of each loop on a received candidate, for stating what a prefix of
  candidates leaves in \<open>ret\<close> and in \<open>autoSeq\<close>.\<close>

definition newer :: "FullGetResult \<Rightarrow> FullGetResult \<Rightarrow> FullGetResult" where
  "newer ret v = (if Seq ret \<le>s Seq v then v else ret)"

definition bump :: "int64 \<Rightarrow> FullGetResult \<Rightarrow> int64" where
  "bump autoSeq v = (if Mutable v \<and> autoSeq <s Seq v then Seq v else autoSeq)"

text \<open>Whether the data of an element of the closest set holds a string, and which.\<close>

definition holds_string :: "'a Elem \<Rightarrow> bool" where
  "holds_string elem = snd (assert_string_ok (Data elem))"

definition token_of :: "'a Elem \<Rightarrow> string" where
  "token_of elem = fst (assert_string_ok (Data elem))"

text \<open>
  Concrete inputs for the examples below: candidates as the query function builds them,
  the arrival order of sequence numbers 5, 3, 7, 7 (the values tell the two candidates of
  sequence 7 apart), and a node whose writes fail.
\<close>

definition mutable_item :: "int64 \<Rightarrow> bytes \<Rightarrow> FullGetResult" where
  "mutable_item q v = \<lparr>Seq = q, V = v, Sig = replicate 64 0, Mutable = True\<rparr>"

definition immutable_item :: "bytes \<Rightarrow> FullGetResult" where
  "immutable_item v = \<lparr>Seq = 0, V = v, Sig = replicate 64 0, Mutable = False\<rparr>"

definition arrivals_5_3_7_7 :: "FullGetResult list" where
  "arrivals_5_3_7_7 =
     [mutable_item 5 [1], mutable_item 3 [2], mutable_item 7 [3], mutable_item 7 [4]]"

definition write_fails :: "'a \<Rightarrow> 'p \<Rightarrow> string \<Rightarrow> string option" where
  "write_fails addr put token = Some ''write failed''"

text \<open>
  Stand-ins for the two library functions, used only to run \<open>classify\<close> on a concrete
  reply: a 20-byte digest and a verifier that accepts, as \<^verbatim>\<open>bep44.Verify\<close> does on an item
  signed by the owner of the key.
\<close>

definition example_Sum :: "bytes \<Rightarrow> bytes" where
  "example_Sum bs = take 20 (bs @ replicate 20 0)"

definition example_Verify :: "bytes \<Rightarrow> bytes \<Rightarrow> int64 \<Rightarrow> bytes \<Rightarrow> bytes \<Rightarrow> bool" where
  "example_Verify k salt q v sg = True"

text \<open>
  A node that answers every query with a signed item of sequence number 1 and value
  \<open>[5]\<close> under the key of 32 bytes 7, and with the token \<^verbatim>\<open>tok\<close>.
\<close>

definition example_tqr :: "nat \<Rightarrow> nat QueryResult" where
  "example_tqr addr =
     \<lparr>ResponseFrom = Some addr, ClosestData = AnyString ''tok'', Nodes = [], Nodes6 = []\<rparr>"

definition example_sGet :: "nat \<Rightarrow> bytes \<Rightarrow> int64 option \<Rightarrow> (nat, nat) dhtQueryResult" where
  "example_sGet addr target seq =
     \<lparr>Reply_R = Some \<lparr>R_V = [5], R_K = replicate 32 7, R_Sig = replicate 64 0, R_Seq = Some 1\<rparr>,
      TraversalQueryResult = example_tqr\<rparr>"

section \<open>The loops on a prefix of candidates\<close>

lemma receiveResults_mutables:
  "\<forall>v\<in>set ms. Mutable v \<Longrightarrow>
   receiveResults (map Value ms @ es) ret got =
     receiveResults es (foldl newer ret ms) (got \<or> ms \<noteq> [])"
  by (induction ms arbitrary: ret got) (simp_all add: newer_def)

lemma MinInt64_least: "MinInt64 \<le>s x"
proof -
  have "sint MinInt64 = - (2 ^ 63)" by (simp add: MinInt64_def)
  moreover have "- (2 ^ 63) \<le> sint x" using sint_ge [of x] by simp
  ultimately show ?thesis by (simp add: word_sle_eq)
qed

text \<open>
  After any candidates, \<open>ret\<close> is either untouched (every candidate was strictly older)
  or the last of the candidates of greatest sequence number.
\<close>

lemma foldl_newer_cases:
  "(foldl newer ret ms = ret \<and> (\<forall>j<length ms. Seq (ms ! j) <s Seq ret)) \<or>
   (\<exists>i<length ms. foldl newer ret ms = ms ! i \<and> Seq ret \<le>s Seq (ms ! i) \<and>
      (\<forall>j<length ms. Seq (ms ! j) \<le>s Seq (ms ! i)) \<and>
      (\<forall>j<length ms. i < j \<longrightarrow> Seq (ms ! j) <s Seq (ms ! i)))"
proof (induction ms rule: rev_induct)
  case Nil
  then show ?case by simp
next
  case (snoc m ms)
  let ?r = "foldl newer ret ms"
  show ?case
  proof (cases "Seq ?r \<le>s Seq m")
    case True
    have r: "foldl newer ret (ms @ [m]) = m" using True by (simp add: newer_def)
    have le_ret: "Seq ret \<le>s Seq ?r" using snoc.IH by auto
    have all: "\<forall>j<length ms. Seq (ms ! j) \<le>s Seq ?r"
      using snoc.IH by (auto simp: signed.less_imp_le)
    have "\<forall>j<length (ms @ [m]). Seq ((ms @ [m]) ! j) \<le>s Seq m"
      using all True by (auto simp: nth_append less_Suc_eq intro: signed.order_trans)
    moreover have "Seq ret \<le>s Seq m" using le_ret True by (rule signed.order_trans)
    ultimately have
      "length ms < length (ms @ [m]) \<and>
       foldl newer ret (ms @ [m]) = (ms @ [m]) ! length ms \<and>
       Seq ret \<le>s Seq ((ms @ [m]) ! length ms) \<and>
       (\<forall>j<length (ms @ [m]). Seq ((ms @ [m]) ! j) \<le>s Seq ((ms @ [m]) ! length ms)) \<and>
       (\<forall>j<length (ms @ [m]). length ms < j \<longrightarrow>
          Seq ((ms @ [m]) ! j) <s Seq ((ms @ [m]) ! length ms))"
      using r by simp
    then show ?thesis by blast
  next
    case False
    then have lt: "Seq m <s Seq ?r" by (simp add: signed.not_le)
    have r: "foldl newer ret (ms @ [m]) = ?r" using False by (simp add: newer_def)
    from snoc.IH show ?thesis
    proof (elim disjE conjE exE)
      assume a: "?r = ret" "\<forall>j<length ms. Seq (ms ! j) <s Seq ret"
      then have "\<forall>j<length (ms @ [m]). Seq ((ms @ [m]) ! j) <s Seq ret"
        using lt by (auto simp: nth_append less_Suc_eq)
      then show ?thesis using r a by simp
    next
      fix i
      assume a: "i < length ms" "?r = ms ! i" "Seq ret \<le>s Seq (ms ! i)"
        "\<forall>j<length ms. Seq (ms ! j) \<le>s Seq (ms ! i)"
        "\<forall>j<length ms. i < j \<longrightarrow> Seq (ms ! j) <s Seq (ms ! i)"
      have "i < length (ms @ [m]) \<and> foldl newer ret (ms @ [m]) = (ms @ [m]) ! i \<and>
        Seq ret \<le>s Seq ((ms @ [m]) ! i) \<and>
        (\<forall>j<length (ms @ [m]). Seq ((ms @ [m]) ! j) \<le>s Seq ((ms @ [m]) ! i)) \<and>
        (\<forall>j<length (ms @ [m]). i < j \<longrightarrow> Seq ((ms @ [m]) ! j) <s Seq ((ms @ [m]) ! i))"
        using a r lt by (auto simp: nth_append less_Suc_eq signed.less_imp_le)
      then show ?thesis by blast
    qed
  qed
qed

text \<open>Started from \<^verbatim>\<open>math.MinInt64\<close>, the first case needs an empty prefix.\<close>

lemma foldl_newer_from_MinInt64:
  assumes "ms \<noteq> []"
  shows "\<exists>i<length ms. foldl newer (zeroFullGetResult\<lparr>Seq := MinInt64\<rparr>) ms = ms ! i \<and>
           (\<forall>j<length ms. Seq (ms ! j) \<le>s Seq (ms ! i)) \<and>
           (\<forall>j<length ms. i < j \<longrightarrow> Seq (ms ! j) <s Seq (ms ! i))"
proof -
  let ?ret0 = "zeroFullGetResult\<lparr>Seq := MinInt64\<rparr>"
  have "\<not> (\<forall>j<length ms. Seq (ms ! j) <s Seq ?ret0)"
  proof
    assume "\<forall>j<length ms. Seq (ms ! j) <s Seq ?ret0"
    then have "Seq (ms ! 0) <s MinInt64" using assms by simp
    then show False
      using MinInt64_least [of "Seq (ms ! 0)"] by (simp add: signed.not_less [symmetric])
  qed
  then show ?thesis using foldl_newer_cases [of ?ret0 ms] by auto
qed

lemma receiveResults_got:
  "\<forall>e\<in>set es. \<forall>c. e \<noteq> Done c \<Longrightarrow> receiveResults es ret True = Returns (r, err) \<Longrightarrow>
   err = None \<and> (r = ret \<or> Value r \<in> set es)"
proof (induction es arbitrary: ret)
  case Nil
  then show ?case by simp
next
  case (Cons e es)
  show ?case
  proof (cases e)
    case Stalled
    then show ?thesis using Cons.prems by simp
  next
    case (Value v)
    show ?thesis
    proof (cases "Mutable v")
      case True
      let ?ret = "if Seq ret \<le>s Seq v then v else ret"
      have "receiveResults es ?ret True = Returns (r, err)"
        using Cons.prems(2) Value True by simp
      moreover have "\<forall>e\<in>set es. \<forall>c. e \<noteq> Done c" using Cons.prems(1) by simp
      ultimately have "err = None \<and> (r = ?ret \<or> Value r \<in> set es)"
        by (rule Cons.IH [rotated])
      then show ?thesis using Value by (auto split: if_splits)
    next
      case False
      then show ?thesis using Cons.prems(2) Value by simp
    qed
  next
    case (Done c)
    then show ?thesis using Cons.prems(1) by simp
  qed
qed

text \<open>
  A stall after mutable candidates returns what the loop has recorded, and a loop that
  is offered the stall signal and no cancellation returns.
\<close>

lemma Get_stall_after_mutables:
  "\<forall>m\<in>set ms. Mutable m \<Longrightarrow>
   Get target seq salt None st (map Value ms @ Stalled # es) =
     Returns (foldl newer (zeroFullGetResult\<lparr>Seq := MinInt64\<rparr>) ms, Some st,
       if ms = [] then Some ValueNotFound else None)"
  by (simp add: Get_def startGetTraversal_def receiveResults_mutables)

lemma receiveResults_stall_returns:
  "\<forall>e\<in>set es. \<forall>c. e \<noteq> Done c \<Longrightarrow> Stalled \<in> set es \<Longrightarrow>
   \<exists>r err. receiveResults es ret got = Returns (r, err)"
proof (induction es arbitrary: ret got)
  case Nil
  then show ?case by simp
next
  case (Cons e es)
  show ?case
  proof (cases e)
    case Stalled
    then show ?thesis by simp
  next
    case (Value v)
    have "\<forall>e\<in>set es. \<forall>c. e \<noteq> Done c" and "Stalled \<in> set es"
      using Cons.prems Value by auto
    then have "\<exists>r err. receiveResults es (if Seq ret \<le>s Seq v then v else ret) True =
        Returns (r, err)"
      by (rule Cons.IH)
    then show ?thesis using Value by auto
  next
    case (Done c)
    then show ?thesis using Cons.prems(1) by simp
  qed
qed

lemma Get_Returns_cases:
  "Get target seq salt starting st events = Returns (ret, stats, err) \<Longrightarrow>
   (\<exists>e. starting = Some e \<and> err = Some (StartingNodesErr e)) \<or>
   (starting = None \<and> stats = Some st \<and>
    receiveResults events (zeroFullGetResult\<lparr>Seq := MinInt64\<rparr>) False = Returns (ret, err))"
  by (auto simp: Get_def startGetTraversal_def split: option.splits run.splits)

lemma notDone_values:
  "notDone (map Value vs @ es) a = notDone es (foldl bump a vs)"
  by (induction vs arbitrary: a) (simp_all add: bump_def)

text \<open>
  After any candidates, \<open>autoSeq\<close> is the greatest of its start value and the sequence
  numbers of the mutable candidates.
\<close>

lemma foldl_bump:
  "a \<le>s foldl bump a vs \<and> (\<forall>v\<in>set vs. Mutable v \<longrightarrow> Seq v \<le>s foldl bump a vs) \<and>
   (foldl bump a vs = a \<or> (\<exists>v\<in>set vs. Mutable v \<and> Seq v = foldl bump a vs))"
proof (induction vs rule: rev_induct)
  case Nil
  then show ?case by simp
next
  case (snoc v vs)
  let ?b = "foldl bump a vs"
  show ?case
  proof (cases "Mutable v \<and> ?b <s Seq v")
    case True
    then have r: "foldl bump a (vs @ [v]) = Seq v" by (simp add: bump_def)
    have le: "?b \<le>s Seq v" using True by (simp add: signed.less_imp_le)
    have "a \<le>s Seq v" using snoc.IH le by (blast intro: signed.order_trans)
    moreover have "\<forall>w\<in>set vs. Mutable w \<longrightarrow> Seq w \<le>s Seq v"
      using snoc.IH le by (blast intro: signed.order_trans)
    ultimately show ?thesis using r True by auto
  next
    case False
    then have r: "foldl bump a (vs @ [v]) = ?b" by (auto simp: bump_def)
    have "Mutable v \<longrightarrow> Seq v \<le>s ?b" using False by (auto simp: signed.not_less)
    then show ?thesis using r snoc.IH by auto
  qed
qed

text \<open>
  When every element of the closest set holds a string, the fan-out sends one write per
  element and leaves in \<^verbatim>\<open>err\<close> the result of the last one.
\<close>

lemma fanOut_strings:
  "\<forall>el\<in>set closest. holds_string el \<Longrightarrow>
   fanOut sPut put closest e0 sent0 =
     Returns (if closest = [] then e0
              else map_option PutErr (sPut (Addr (last closest)) put (token_of (last closest))),
              sent0 @ map (\<lambda>el. (Addr el, put, token_of el)) closest)"
proof (induction closest arbitrary: e0 sent0)
  case Nil
  then show ?case by simp
next
  case (Cons el els)
  obtain tok where d: "Data el = AnyString tok"
    using Cons.prems by (cases "Data el") (simp_all add: holds_string_def)
  have "\<forall>x\<in>set els. holds_string x" using Cons.prems by simp
  then show ?case using d by (simp add: Cons.IH token_of_def)
qed

text \<open>
  So when discovery ends on the stall signal and the closest set is not empty, the error
  that \<^verbatim>\<open>Put\<close> returns is the result of the write that assigned last.
\<close>

lemma Put_stalled_err_is_last_write:
  assumes "\<forall>el\<in>set closest. holds_string el" and "closest \<noteq> []"
  shows "\<exists>r. Put target salt seqToPut None st (map Value vs @ Stalled # es) closest sPut =
           Returns r \<and>
     ret_err r = map_option PutErr
       (sPut (Addr (last closest)) (seqToPut (hd (built r))) (token_of (last closest)))"
  using assms
  by (simp add: Put_def startGetTraversal_def notDone_values fanOut_strings)

text \<open>
  Whatever the library hands in, the query result that lines 76 to 79 hand back keeps its
  \<^verbatim>\<open>ResponseFrom\<close> and carries a string, on which the assertion of line 173 succeeds.
\<close>

lemma closestData_string:
  "ResponseFrom (closestData tqr) = ResponseFrom tqr \<and>
   ClosestData (closestData tqr) = AnyString (fst (assert_string_ok (ClosestData tqr))) \<and>
   assert_string (ClosestData (closestData tqr)) =
     Returns (fst (assert_string_ok (ClosestData tqr)))"
  by (simp add: closestData_def Let_def)

text \<open>The example of the specification: sequence numbers 5, 3, 7, 7 in that order.\<close>

lemma Get_arrivals_5_3_7_7:
  "Get target seq salt None st (map Value arrivals_5_3_7_7 @ [Stalled]) =
     Returns (mutable_item 7 [4], Some st, None)"
  by (simp add: Get_def startGetTraversal_def arrivals_5_3_7_7_def mutable_item_def
      zeroFullGetResult_def MinInt64_def word_sle_eq)

section \<open>Claims about \<^verbatim>\<open>Get\<close>\<close>

text \<open>
  Claim C3. When only mutable candidates are received and the loop then ends on the
  stall signal, \<^verbatim>\<open>Get\<close> returns without error a candidate of greatest sequence number,
  and among those the one received last: every later candidate has a strictly smaller
  sequence number.
\<close>

theorem Get_max_seq_latest_wins:
  assumes "ms \<noteq> []" and "\<forall>v\<in>set ms. Mutable v"
  shows "\<exists>i<length ms.
           Get target seq salt None st (map Value ms @ Stalled # es) =
             Returns (ms ! i, Some st, None) \<and>
           (\<forall>j<length ms. Seq (ms ! j) \<le>s Seq (ms ! i)) \<and>
           (\<forall>j<length ms. i < j \<longrightarrow> Seq (ms ! j) <s Seq (ms ! i))"
proof -
  have "Get target seq salt None st (map Value ms @ Stalled # es) =
      Returns (foldl newer (zeroFullGetResult\<lparr>Seq := MinInt64\<rparr>) ms, Some st, None)"
    using assms by (simp add: Get_def startGetTraversal_def receiveResults_mutables)
  then show ?thesis using foldl_newer_from_MinInt64 [OF assms(1)] by auto
qed

text \<open>Claim C3 on the arrival order 5, 3, 7, 7.\<close>

theorem Get_max_seq_latest_wins_witness:
  "arrivals_5_3_7_7 \<noteq> [] \<and> list_all Mutable arrivals_5_3_7_7 \<and>
   (\<exists>i<length arrivals_5_3_7_7.
      Get [] None [] None () (map Value arrivals_5_3_7_7 @ Stalled # []) =
        Returns (arrivals_5_3_7_7 ! i, Some (), None) \<and>
      (\<forall>j<length arrivals_5_3_7_7. Seq (arrivals_5_3_7_7 ! j) \<le>s Seq (arrivals_5_3_7_7 ! i)) \<and>
      (\<forall>j<length arrivals_5_3_7_7. i < j \<longrightarrow>
         Seq (arrivals_5_3_7_7 ! j) <s Seq (arrivals_5_3_7_7 ! i)))"
proof -
  have h1: "arrivals_5_3_7_7 \<noteq> []" by (simp add: arrivals_5_3_7_7_def)
  have h2: "\<forall>v\<in>set arrivals_5_3_7_7. Mutable v"
    by (simp add: arrivals_5_3_7_7_def mutable_item_def)
  have h2': "list_all Mutable arrivals_5_3_7_7" using h2 by (simp add: list_all_iff)
  show ?thesis by (intro conjI h1 h2' Get_max_seq_latest_wins [OF h1 h2])
qed

text \<open>
  Claim C4. An immutable candidate becomes the result and ends the loop as soon as it is
  received, whatever mutable candidates were received before it and whatever would have
  come after it.
\<close>

theorem Get_immutable_wins:
  assumes "\<forall>m\<in>set ms. Mutable m" and "\<not> Mutable v"
  shows "Get target seq salt None st (map Value ms @ Value v # es) = Returns (v, Some st, None)"
  using assms by (simp add: Get_def startGetTraversal_def receiveResults_mutables)

text \<open>
  Claim C4 on an immutable candidate received after sequence numbers 5, 3, 7, 7 and
  before a mutable candidate of sequence number 100.
\<close>

theorem Get_immutable_wins_witness:
  "list_all Mutable arrivals_5_3_7_7 \<and> \<not> Mutable (immutable_item [9]) \<and>
   Get [] None [] None ()
     (map Value arrivals_5_3_7_7 @ Value (immutable_item [9]) #
        [Value (mutable_item 100 [5]), Stalled]) =
     Returns (immutable_item [9], Some (), None)"
proof -
  have h1: "\<forall>m\<in>set arrivals_5_3_7_7. Mutable m"
    by (simp add: arrivals_5_3_7_7_def mutable_item_def)
  have h2: "\<not> Mutable (immutable_item [9])" by (simp add: immutable_item_def)
  have h1': "list_all Mutable arrivals_5_3_7_7" using h1 by (simp add: list_all_iff)
  show ?thesis by (intro conjI h1' h2 Get_immutable_wins [OF h1 h2])
qed

text \<open>
  Claim C7. A stall with nothing received returns the error "value not found". A stall
  after mutable candidates returns, without error, the candidate recorded: one of
  greatest sequence number, the last received among those. Without cancellation a call
  that is offered the stall signal returns. And without cancellation a call that returns
  has the error "value not found" exactly when the traversal started and the loop took
  the stall signal before receiving any candidate; once a candidate has been received it
  returns no error and its item is one of the candidates received.
\<close>

theorem Get_NotFound_iff_stall_without_candidate:
  "Get target seq salt None st (Stalled # es) =
     Returns (zeroFullGetResult\<lparr>Seq := MinInt64\<rparr>, Some st, Some ValueNotFound) \<and>
   (ms \<noteq> [] \<and> (\<forall>m\<in>set ms. Mutable m) \<longrightarrow>
      (\<exists>i<length ms.
         Get target seq salt None st (map Value ms @ Stalled # es) =
           Returns (ms ! i, Some st, None) \<and>
         (\<forall>j<length ms. Seq (ms ! j) \<le>s Seq (ms ! i)) \<and>
         (\<forall>j<length ms. i < j \<longrightarrow> Seq (ms ! j) <s Seq (ms ! i)))) \<and>
   ((\<forall>e\<in>set events. \<forall>c. e \<noteq> Done c) \<and> Stalled \<in> set events \<longrightarrow>
      (\<exists>r e. Get target seq salt None st events = Returns (r, Some st, e))) \<and>
   ((\<forall>e\<in>set events. \<forall>c. e \<noteq> Done c) \<and>
    Get target seq salt starting st events = Returns (ret, stats, err) \<longrightarrow>
      (err = Some ValueNotFound \<longleftrightarrow> starting = None \<and> (\<exists>es'. events = Stalled # es')) \<and>
      (starting = None \<and> (\<exists>v es'. events = Value v # es') \<longrightarrow>
         err = None \<and> Value ret \<in> set events))"
proof (intro conjI impI)
  let ?ret0 = "zeroFullGetResult\<lparr>Seq := MinInt64\<rparr>"
  show "Get target seq salt None st (Stalled # es) =
      Returns (?ret0, Some st, Some ValueNotFound)"
    by (simp add: Get_def startGetTraversal_def)
next
  assume a: "ms \<noteq> [] \<and> (\<forall>m\<in>set ms. Mutable m)"
  then have "Get target seq salt None st (map Value ms @ Stalled # es) =
      Returns (foldl newer (zeroFullGetResult\<lparr>Seq := MinInt64\<rparr>) ms, Some st, None)"
    by (simp add: Get_stall_after_mutables)
  then show "\<exists>i<length ms.
         Get target seq salt None st (map Value ms @ Stalled # es) =
           Returns (ms ! i, Some st, None) \<and>
         (\<forall>j<length ms. Seq (ms ! j) \<le>s Seq (ms ! i)) \<and>
         (\<forall>j<length ms. i < j \<longrightarrow> Seq (ms ! j) <s Seq (ms ! i))"
    using a foldl_newer_from_MinInt64 [of ms] by auto
next
  assume a: "(\<forall>e\<in>set events. \<forall>c. e \<noteq> Done c) \<and> Stalled \<in> set events"
  then have "\<exists>r e. receiveResults events (zeroFullGetResult\<lparr>Seq := MinInt64\<rparr>) False =
      Returns (r, e)"
    by (simp add: receiveResults_stall_returns)
  then show "\<exists>r e. Get target seq salt None st events = Returns (r, Some st, e)"
    by (auto simp: Get_def startGetTraversal_def)
next
  assume a: "(\<forall>e\<in>set events. \<forall>c. e \<noteq> Done c) \<and>
    Get target seq salt starting st events = Returns (ret, stats, err)"
  let ?ret0 = "zeroFullGetResult\<lparr>Seq := MinInt64\<rparr>"
  have nd: "\<forall>e\<in>set events. \<forall>c. e \<noteq> Done c" using a by simp
  have g: "Get target seq salt starting st events = Returns (ret, stats, err)" using a by simp
  have val: "err = None \<and> Value ret \<in> set events"
    if "starting = None" and ev: "events = Value v # es'" for v es'
  proof -
    have rr: "receiveResults events ?ret0 False = Returns (ret, err)"
      using g that Get_Returns_cases [of target seq salt starting st events ret stats err]
      by auto
    show ?thesis
    proof (cases "Mutable v")
      case True
      have "(if Seq ?ret0 \<le>s Seq v then v else ?ret0) = v"
        using MinInt64_least [of "Seq v"] by simp
      then have "receiveResults es' v True = Returns (ret, err)"
        using rr ev True by simp
      moreover have "\<forall>e\<in>set es'. \<forall>c. e \<noteq> Done c" using nd ev by simp
      ultimately have "err = None \<and> (ret = v \<or> Value ret \<in> set es')"
        by (rule receiveResults_got [rotated])
      then show ?thesis using ev by auto
    next
      case False
      then show ?thesis using rr ev by simp
    qed
  qed
  show "err = Some ValueNotFound \<longleftrightarrow> starting = None \<and> (\<exists>es'. events = Stalled # es')"
  proof
    assume nf: "err = Some ValueNotFound"
    have s: "starting = None"
      using g nf Get_Returns_cases [of target seq salt starting st events ret stats err]
      by auto
    have "\<exists>es'. events = Stalled # es'"
    proof (cases events)
      case Nil
      then show ?thesis using g s by (simp add: Get_def startGetTraversal_def)
    next
      case (Cons e es')
      show ?thesis
      proof (cases e)
        case Stalled
        then show ?thesis using Cons by simp
      next
        case (Value v)
        then show ?thesis using val [OF s] Cons nf by auto
      next
        case (Done c)
        then show ?thesis using nd Cons by simp
      qed
    qed
    then show "starting = None \<and> (\<exists>es'. events = Stalled # es')" using s by simp
  next
    assume "starting = None \<and> (\<exists>es'. events = Stalled # es')"
    then show "err = Some ValueNotFound"
      using g by (auto simp: Get_def startGetTraversal_def)
  qed
  assume "starting = None \<and> (\<exists>v es'. events = Value v # es')"
  then show "err = None" and "Value ret \<in> set events" using val by blast+
qed

text \<open>
  Claim C7 on calls that stall at once, that receive sequence numbers 5, 3, 7, 7 and
  then stall, and that receive one candidate of sequence number 5 and then stall.
\<close>

theorem Get_NotFound_iff_stall_without_candidate_witness:
  "Get [] None [] None () (Stalled # []) =
     Returns (zeroFullGetResult\<lparr>Seq := MinInt64\<rparr>, Some (), Some ValueNotFound) \<and>
   arrivals_5_3_7_7 \<noteq> [] \<and> list_all Mutable arrivals_5_3_7_7 \<and>
   (\<exists>i<length arrivals_5_3_7_7.
      Get [] None [] None () (map Value arrivals_5_3_7_7 @ Stalled # []) =
        Returns (arrivals_5_3_7_7 ! i, Some (), None) \<and>
      (\<forall>j<length arrivals_5_3_7_7. Seq (arrivals_5_3_7_7 ! j) \<le>s Seq (arrivals_5_3_7_7 ! i)) \<and>
      (\<forall>j<length arrivals_5_3_7_7. i < j \<longrightarrow>
         Seq (arrivals_5_3_7_7 ! j) <s Seq (arrivals_5_3_7_7 ! i))) \<and>
   list_all (\<lambda>e. \<forall>c. e \<noteq> Done c) [Value (mutable_item 5 [1]), Stalled] \<and>
   Stalled \<in> set [Value (mutable_item 5 [1]), Stalled] \<and>
   (\<exists>r e. Get [] None [] None () [Value (mutable_item 5 [1]), Stalled] =
      Returns (r, Some (), e)) \<and>
   Get [] None [] None () [Value (mutable_item 5 [1]), Stalled] =
     Returns (mutable_item 5 [1], Some (), None) \<and>
   ((None :: error option) = Some ValueNotFound \<longleftrightarrow>
      (None :: string option) = None \<and>
      (\<exists>es'. [Value (mutable_item 5 [1]), Stalled] = Stalled # es')) \<and>
   Value (mutable_item 5 [1]) \<in> set [Value (mutable_item 5 [1]), Stalled]"
proof -
  let ?ev = "[Value (mutable_item 5 [1]), Stalled]"
  have m1: "arrivals_5_3_7_7 \<noteq> []" by (simp add: arrivals_5_3_7_7_def)
  have m2: "\<forall>m\<in>set arrivals_5_3_7_7. Mutable m"
    by (simp add: arrivals_5_3_7_7_def mutable_item_def)
  have m2': "list_all Mutable arrivals_5_3_7_7" using m2 by (simp add: list_all_iff)
  have h1: "\<forall>e\<in>set ?ev. \<forall>c. e \<noteq> Done c" by simp
  have h1': "list_all (\<lambda>e. \<forall>c. e \<noteq> Done c) ?ev" by simp
  have s: "Stalled \<in> set ?ev" by simp
  have h2: "Get [] None [] None () ?ev = Returns (mutable_item 5 [1], Some (), None)"
    by (simp add: Get_def startGetTraversal_def mutable_item_def zeroFullGetResult_def
        MinInt64_def word_sle_eq)
  note inst = Get_NotFound_iff_stall_without_candidate
      [where target = "[]" and seq = None and salt = "[]" and st = "()"
      and es = "[]" and ms = arrivals_5_3_7_7 and events = ?ev and starting = None
      and ret = "mutable_item 5 [1]" and stats = "Some ()" and err = None]
  note a = inst [THEN conjunct1]
  note b = inst [THEN conjunct2, THEN conjunct1, THEN mp, OF conjI [OF m1 m2]]
  note c = inst [THEN conjunct2, THEN conjunct2, THEN conjunct1, THEN mp, OF conjI [OF h1 s]]
  note d = inst [THEN conjunct2, THEN conjunct2, THEN conjunct2, THEN mp, OF conjI [OF h1 h2]]
  have "Value (mutable_item 5 [1]) \<in> set ?ev" using d [THEN conjunct2] by blast
  then show ?thesis
    by (intro conjI a m1 m2' b h1' s c h2 d [THEN conjunct1])
qed

text \<open>
  Claim C2, as stated, fails. The context is cancelled and the traversal has stalled with
  nothing received: both cases of the \<^verbatim>\<open>select\<close> can proceed, the statement may take the
  stall, and \<^verbatim>\<open>Get\<close> then returns "value not found" although the context is cancelled.
\<close>

theorem Get_cancel_has_no_priority:
  "can_proceed \<lparr>stalled_ready = True, sending = None, ctx_done = Some Canceled\<rparr> Stalled \<and>
   can_proceed \<lparr>stalled_ready = True, sending = None, ctx_done = Some Canceled\<rparr> (Done Canceled) \<and>
   Get [] None [] None () [Stalled] =
     Returns (zeroFullGetResult\<lparr>Seq := MinInt64\<rparr>, Some (), Some ValueNotFound)"
  by (simp add: Get_def startGetTraversal_def)

text \<open>
  Claim C2, amended. After any mutable candidates, when the \<^verbatim>\<open>select\<close> runs with the
  context cancelled while the stall signal is not ready and no candidate is being sent,
  the case it takes is the cancellation and \<^verbatim>\<open>Get\<close> returns the context's error, never
  "value not found". With no candidate before, this is cancellation before anything
  arrived.
\<close>

theorem Get_cancel_when_only_case_ready:
  assumes "\<forall>m\<in>set ms. Mutable m"
    and "can_proceed c e" and "ctx_done c = Some ce"
    and "\<not> stalled_ready c" and "sending c = None"
  shows "\<exists>ret. Get target seq salt None st (map Value ms @ e # es) =
           Returns (ret, Some st, Some (CtxErr ce))"
proof -
  have "e = Done ce" using assms(2-5) by (cases e) auto
  then show ?thesis
    using assms(1) by (simp add: Get_def startGetTraversal_def receiveResults_mutables)
qed

text \<open>Claim C2, amended, on a context cancelled before anything arrived.\<close>

theorem Get_cancel_when_only_case_ready_witness:
  "can_proceed \<lparr>stalled_ready = False, sending = None, ctx_done = Some Canceled\<rparr> (Done Canceled) \<and>
   ctx_done \<lparr>stalled_ready = False, sending = None, ctx_done = Some Canceled\<rparr> = Some Canceled \<and>
   \<not> stalled_ready \<lparr>stalled_ready = False, sending = None, ctx_done = Some Canceled\<rparr> \<and>
   sending \<lparr>stalled_ready = False, sending = None, ctx_done = Some Canceled\<rparr> = None \<and>
   (\<exists>ret. Get [] None [] None () (map Value [] @ Done Canceled # []) =
      Returns (ret, Some (), Some (CtxErr Canceled)))"
proof -
  let ?c = "\<lparr>stalled_ready = False, sending = None, ctx_done = Some Canceled\<rparr>"
  have h1: "\<forall>m\<in>set ([] :: FullGetResult list). Mutable m" by simp
  have h2: "can_proceed ?c (Done Canceled)" by simp
  have h3: "ctx_done ?c = Some Canceled" by simp
  have h4: "\<not> stalled_ready ?c" by simp
  have h5: "sending ?c = None" by simp
  show ?thesis
    by (intro conjI h2 h3 h4 h5 Get_cancel_when_only_case_ready [OF h1 h2 h3 h4 h5])
qed

text \<open>
  Claim C9, as stated, fails. A mutable candidate of sequence number 5 is received and
  the context is then cancelled: \<^verbatim>\<open>Get\<close> returns the cancellation error together with
  that candidate, which the named result \<^verbatim>\<open>ret\<close> still holds.
\<close>

theorem Get_cancel_keeps_recorded_candidate:
  "Get [] None [] None () [Value (mutable_item 5 [1]), Done Canceled] =
     Returns (mutable_item 5 [1], Some (), Some (CtxErr Canceled))"
  by (simp add: Get_def startGetTraversal_def mutable_item_def zeroFullGetResult_def
      MinInt64_def word_sle_eq)

text \<open>
  Claim C9, amended. When the loop takes the cancellation case after mutable candidates,
  \<^verbatim>\<open>Get\<close> returns the cancellation error, and the item returned with it is the candidate
  recorded so far (of greatest sequence number, the last received among those), or the
  initial item with sequence number \<^verbatim>\<open>math.MinInt64\<close> when nothing was received.
\<close>

theorem Get_cancel_returns_error_with_recorded:
  assumes "\<forall>m\<in>set ms. Mutable m"
  shows "\<exists>ret. Get target seq salt None st (map Value ms @ Done e # es) =
             Returns (ret, Some st, Some (CtxErr e)) \<and>
           (ms = [] \<longrightarrow> ret = zeroFullGetResult\<lparr>Seq := MinInt64\<rparr>) \<and>
           (ms \<noteq> [] \<longrightarrow> (\<exists>i<length ms. ret = ms ! i \<and>
              (\<forall>j<length ms. Seq (ms ! j) \<le>s Seq (ms ! i)) \<and>
              (\<forall>j<length ms. i < j \<longrightarrow> Seq (ms ! j) <s Seq (ms ! i))))"
proof -
  have "Get target seq salt None st (map Value ms @ Done e # es) =
      Returns (foldl newer (zeroFullGetResult\<lparr>Seq := MinInt64\<rparr>) ms, Some st, Some (CtxErr e))"
    using assms by (simp add: Get_def startGetTraversal_def receiveResults_mutables)
  then show ?thesis using foldl_newer_from_MinInt64 [of ms] by auto
qed

text \<open>Claim C9, amended, on cancellation after sequence numbers 5, 3, 7, 7.\<close>

theorem Get_cancel_returns_error_with_recorded_witness:
  "list_all Mutable arrivals_5_3_7_7 \<and>
   (\<exists>ret. Get [] None [] None () (map Value arrivals_5_3_7_7 @ Done Canceled # []) =
             Returns (ret, Some (), Some (CtxErr Canceled)) \<and>
           (arrivals_5_3_7_7 = [] \<longrightarrow> ret = zeroFullGetResult\<lparr>Seq := MinInt64\<rparr>) \<and>
           (arrivals_5_3_7_7 \<noteq> [] \<longrightarrow> (\<exists>i<length arrivals_5_3_7_7. ret = arrivals_5_3_7_7 ! i \<and>
              (\<forall>j<length arrivals_5_3_7_7.
                 Seq (arrivals_5_3_7_7 ! j) \<le>s Seq (arrivals_5_3_7_7 ! i)) \<and>
              (\<forall>j<length arrivals_5_3_7_7. i < j \<longrightarrow>
                 Seq (arrivals_5_3_7_7 ! j) <s Seq (arrivals_5_3_7_7 ! i)))))"
proof -
  have h1: "\<forall>m\<in>set arrivals_5_3_7_7. Mutable m"
    by (simp add: arrivals_5_3_7_7_def mutable_item_def)
  have h1': "list_all Mutable arrivals_5_3_7_7" using h1 by (simp add: list_all_iff)
  show ?thesis by (intro conjI h1' Get_cancel_returns_error_with_recorded [OF h1])
qed

section \<open>Claims about \<^verbatim>\<open>Put\<close>\<close>

text \<open>
  Claim C1 says that a call of \<^verbatim>\<open>Put\<close> whose discovery ends on the stall signal returns
  no error even when writes fail. The code returns the error of a failed write: discovery
  stalls at once, the closest set holds one node with the token \<^verbatim>\<open>tok\<close>, the write to it
  fails, and the goroutine's assignment \<^verbatim>\<open>err = res.ToError()\<close> (line 175) sets the named
  result that \<^verbatim>\<open>Put\<close> returns.
\<close>

theorem Put_returns_write_error:
  "Put [] [] id None () [Stalled] [\<lparr>Addr = 1::nat, Data = AnyString ''tok''\<rparr>] write_fails =
   Returns \<lparr>ret_stats = Some (), ret_err = Some (PutErr ''write failed''),
     started = \<lparr>Alpha = 15, Target = [], query_seq = None, query_salt = []\<rparr>,
     built = [0], sent_writes = [(1, 0, ''tok'')]\<rparr>"
  by (simp add: Put_def startGetTraversal_def write_fails_def)

text \<open>
  Claim C5, as stated, fails. The loop takes the cancellation case before anything is
  received: \<^verbatim>\<open>Put\<close> still calls the builder (with 0) and still sends a write to the
  node of the closest set. And with the context cancelled while the stall signal is ready
  too, the \<^verbatim>\<open>select\<close> may take the stall: \<^verbatim>\<open>Put\<close> then builds the item and, with an
  empty closest set, returns no error at all.
\<close>

theorem Put_cancelled_still_builds_and_writes:
  "Put [] [] id None () [Done Canceled] [\<lparr>Addr = 1::nat, Data = AnyString ''tok''\<rparr>]
     write_fails =
   Returns \<lparr>ret_stats = Some (), ret_err = Some (PutErr ''write failed''),
     started = \<lparr>Alpha = 15, Target = [], query_seq = None, query_salt = []\<rparr>,
     built = [0], sent_writes = [(1, 0, ''tok'')]\<rparr> \<and>
   ctx_done \<lparr>stalled_ready = True, sending = None, ctx_done = Some Canceled\<rparr> = Some Canceled \<and>
   can_proceed \<lparr>stalled_ready = True, sending = None, ctx_done = Some Canceled\<rparr> Stalled \<and>
   Put [] [] id None () [Stalled] [] write_fails =
   Returns \<lparr>ret_stats = Some (), ret_err = None,
     started = \<lparr>Alpha = 15, Target = [], query_seq = None, query_salt = []\<rparr>,
     built = [0], sent_writes = ([] :: (nat \<times> int64 \<times> string) list)\<rparr>"
  by (simp add: Put_def startGetTraversal_def write_fails_def)

text \<open>
  Claim C5, amended. When the \<^verbatim>\<open>select\<close> of the discovery loop runs with the context
  cancelled and takes the cancellation case (as it must when the stall signal is not
  ready and no candidate is being sent), the put is not aborted: the loop ends, the
  builder is called exactly once, with the greatest of 0 and the sequence numbers of the
  mutable candidates received so far, one write of the item built is sent to every node
  of the closest set with that node's token, and the call returns with the statistics of
  the traversal; with an empty closest set it returns the cancellation error. The
  elements of the closest set hold strings.
\<close>

theorem Put_cancelled_discovery_goes_on:
  assumes "can_proceed c ev" and "ctx_done c = Some e"
    and "ev = Done e \<or> (\<not> stalled_ready c \<and> sending c = None)"
    and "\<forall>el\<in>set closest. holds_string el"
  shows "\<exists>r a. Put target salt seqToPut None st (map Value vs @ ev # es) closest sPut =
           Returns r \<and>
     ret_stats r = Some st \<and> built r = [a] \<and>
     0 \<le>s a \<and> (\<forall>v\<in>set vs. Mutable v \<longrightarrow> Seq v \<le>s a) \<and>
     (a = 0 \<or> (\<exists>v\<in>set vs. Mutable v \<and> Seq v = a)) \<and>
     sent_writes r = map (\<lambda>el. (Addr el, seqToPut a, token_of el)) closest \<and>
     (closest = [] \<longrightarrow> ret_err r = Some (CtxErr e))"
proof -
  have "ev = Done e" using assms(1-3) by (cases ev) auto
  then show ?thesis
    using assms(4) foldl_bump [of 0 vs]
    by (simp add: Put_def startGetTraversal_def notDone_values fanOut_strings)
qed

text \<open>
  Claim C5, amended, on a cancellation that is the only case ready, after sequence
  numbers 5, 3, 7, 7, with a closest set of one node.
\<close>

theorem Put_cancelled_discovery_goes_on_witness:
  "can_proceed \<lparr>stalled_ready = False, sending = None, ctx_done = Some Canceled\<rparr> (Done Canceled) \<and>
   ctx_done \<lparr>stalled_ready = False, sending = None, ctx_done = Some Canceled\<rparr> = Some Canceled \<and>
   (Done Canceled = Done Canceled \<or>
    (\<not> stalled_ready \<lparr>stalled_ready = False, sending = None, ctx_done = Some Canceled\<rparr> \<and>
     sending \<lparr>stalled_ready = False, sending = None, ctx_done = Some Canceled\<rparr> = None)) \<and>
   list_all holds_string [\<lparr>Addr = 1::nat, Data = AnyString ''tok''\<rparr>] \<and>
   (\<exists>r a. Put [] [] id None () (map Value arrivals_5_3_7_7 @ Done Canceled # [])
           [\<lparr>Addr = 1::nat, Data = AnyString ''tok''\<rparr>] write_fails = Returns r \<and>
     ret_stats r = Some () \<and> built r = [a] \<and>
     0 \<le>s a \<and> (\<forall>v\<in>set arrivals_5_3_7_7. Mutable v \<longrightarrow> Seq v \<le>s a) \<and>
     (a = 0 \<or> (\<exists>v\<in>set arrivals_5_3_7_7. Mutable v \<and> Seq v = a)) \<and>
     sent_writes r =
       map (\<lambda>el. (Addr el, id a, token_of el)) [\<lparr>Addr = 1::nat, Data = AnyString ''tok''\<rparr>] \<and>
     ([\<lparr>Addr = 1::nat, Data = AnyString ''tok''\<rparr>] = [] \<longrightarrow>
        ret_err r = Some (CtxErr Canceled)))"
proof -
  let ?c = "\<lparr>stalled_ready = False, sending = None, ctx_done = Some Canceled\<rparr>"
  have h1: "can_proceed ?c (Done Canceled)" by simp
  have h2: "ctx_done ?c = Some Canceled" by simp
  have h3: "Done Canceled = Done Canceled \<or> (\<not> stalled_ready ?c \<and> sending ?c = None)"
    by simp
  have h4: "\<forall>el\<in>set [\<lparr>Addr = 1::nat, Data = AnyString ''tok''\<rparr>]. holds_string el"
    by (simp add: holds_string_def)
  have h4': "list_all holds_string [\<lparr>Addr = 1::nat, Data = AnyString ''tok''\<rparr>]"
    using h4 by (simp add: list_all_iff)
  show ?thesis by (intro conjI h1 h2 h3 h4' Put_cancelled_discovery_goes_on [OF h1 h2 h3 h4])
qed

text \<open>
  Claim C8, as stated, fails in two ways. When the only mutable candidate received has
  sequence number -1, the greatest sequence number observed is -1 but the builder is
  called with 0. When \<^verbatim>\<open>startGetTraversal\<close> reports an error, \<^verbatim>\<open>Put\<close> returns it and the
  builder is not called at all.
\<close>

theorem Put_builder_not_max_nor_always_called:
  "Put [] [] id None () [Value (mutable_item (- 1) []), Stalled] [] write_fails =
   Returns \<lparr>ret_stats = Some (), ret_err = None,
     started = \<lparr>Alpha = 15, Target = [], query_seq = None, query_salt = []\<rparr>,
     built = [0], sent_writes = ([] :: (nat \<times> int64 \<times> string) list)\<rparr> \<and>
   Put [] [] id (Some ''no initial nodes'') () [Stalled] [] write_fails =
   Returns \<lparr>ret_stats = None, ret_err = Some (StartingNodesErr ''no initial nodes''),
     started = \<lparr>Alpha = 15, Target = [], query_seq = None, query_salt = []\<rparr>,
     built = [], sent_writes = ([] :: (nat \<times> int64 \<times> string) list)\<rparr>"
  by (simp add: Put_def startGetTraversal_def mutable_item_def word_sless_alt)

text \<open>
  Claim C8, amended. When the traversal starts without error, the discovery loop ends
  (on the stall signal or on cancellation) and the elements of the closest set hold
  strings, the queries of the traversal carry no sequence number and the builder is
  called exactly once, with the greatest of 0 and the sequence numbers of the mutable
  candidates received: at least 0, at least each of them, and either 0 or one of them.
  When \<^verbatim>\<open>startGetTraversal\<close> reports an error, whatever the events and the closest set,
  \<^verbatim>\<open>Put\<close> returns that error with nil statistics, the builder is not called and no
  write is sent.
\<close>

theorem Put_builder_called_once_with_max_or_0:
  assumes "\<forall>v. t \<noteq> Value v" and "\<forall>el\<in>set closest. holds_string el"
  shows "(\<exists>r a. Put target salt seqToPut None st (map Value vs @ t # es) closest sPut =
           Returns r \<and>
     query_seq (started r) = None \<and> built r = [a] \<and>
     0 \<le>s a \<and> (\<forall>v\<in>set vs. Mutable v \<longrightarrow> Seq v \<le>s a) \<and>
     (a = 0 \<or> (\<exists>v\<in>set vs. Mutable v \<and> Seq v = a))) \<and>
   (\<exists>r. Put target salt seqToPut (Some s) st events nodes sPut = Returns r \<and>
     query_seq (started r) = None \<and> built r = [] \<and> sent_writes r = [] \<and>
     ret_stats r = None \<and> ret_err r = Some (StartingNodesErr s))"
proof
  show "\<exists>r a. Put target salt seqToPut None st (map Value vs @ t # es) closest sPut =
           Returns r \<and>
     query_seq (started r) = None \<and> built r = [a] \<and>
     0 \<le>s a \<and> (\<forall>v\<in>set vs. Mutable v \<longrightarrow> Seq v \<le>s a) \<and>
     (a = 0 \<or> (\<exists>v\<in>set vs. Mutable v \<and> Seq v = a))"
  proof (cases t)
    case Stalled
    then show ?thesis
      using assms(2) foldl_bump [of 0 vs]
      by (simp add: Put_def startGetTraversal_def notDone_values fanOut_strings)
  next
    case (Value v)
    then show ?thesis using assms(1) by simp
  next
    case (Done e)
    then show ?thesis
      using assms(2) foldl_bump [of 0 vs]
      by (simp add: Put_def startGetTraversal_def notDone_values fanOut_strings)
  qed
  show "\<exists>r. Put target salt seqToPut (Some s) st events nodes sPut = Returns r \<and>
     query_seq (started r) = None \<and> built r = [] \<and> sent_writes r = [] \<and>
     ret_stats r = None \<and> ret_err r = Some (StartingNodesErr s)"
    by (simp add: Put_def startGetTraversal_def)
qed

text \<open>
  Claim C8, amended, on a discovery that receives sequence numbers 5, 3, 7, 7 and then
  stalls, and on a traversal that reports "no initial nodes".
\<close>

theorem Put_builder_called_once_with_max_or_0_witness:
  "(\<forall>v. Stalled \<noteq> Value v) \<and>
   list_all holds_string [\<lparr>Addr = 1::nat, Data = AnyString ''tok''\<rparr>] \<and>
   (\<exists>r a. Put [] [] id None () (map Value arrivals_5_3_7_7 @ Stalled # [])
             [\<lparr>Addr = 1::nat, Data = AnyString ''tok''\<rparr>] write_fails = Returns r \<and>
     query_seq (started r) = None \<and> built r = [a] \<and>
     0 \<le>s a \<and> (\<forall>v\<in>set arrivals_5_3_7_7. Mutable v \<longrightarrow> Seq v \<le>s a) \<and>
     (a = 0 \<or> (\<exists>v\<in>set arrivals_5_3_7_7. Mutable v \<and> Seq v = a))) \<and>
   (\<exists>r. Put [] [] id (Some ''no initial nodes'') () [Stalled]
           [\<lparr>Addr = 1::nat, Data = AnyNil\<rparr>] write_fails = Returns r \<and>
     query_seq (started r) = None \<and> built r = [] \<and> sent_writes r = [] \<and>
     ret_stats r = None \<and> ret_err r = Some (StartingNodesErr ''no initial nodes''))"
proof -
  have h1: "\<forall>v. Stalled \<noteq> Value v" by simp
  have h2: "\<forall>el\<in>set [\<lparr>Addr = 1::nat, Data = AnyString ''tok''\<rparr>]. holds_string el"
    by (simp add: holds_string_def)
  have h2': "list_all holds_string [\<lparr>Addr = 1::nat, Data = AnyString ''tok''\<rparr>]"
    using h2 by (simp add: list_all_iff)
  note inst = Put_builder_called_once_with_max_or_0
      [OF h1 h2, where target = "[]" and salt = "[]" and seqToPut = id
      and st = "()" and vs = arrivals_5_3_7_7 and es = "[]" and sPut = write_fails
      and s = "''no initial nodes''" and events = "[Stalled]"
      and nodes = "[\<lparr>Addr = 1::nat, Data = AnyNil\<rparr>]"]
  show ?thesis by (intro conjI h1 h2' inst [THEN conjunct1] inst [THEN conjunct2])
qed

section \<open>Claims about the per-node query\<close>

text \<open>
  Claim C6, as stated, fails. The value of the reply is its key followed by the salt, so
  the digest of the value and the digest of key and salt are the same under any digest
  function, and the signature verifies: the condition for a mutable candidate holds, both
  conditions hold at once, and the reply is offered as an immutable candidate.
\<close>

theorem classify_both_conditions_immutable:
  "classify example_Sum example_Verify (example_Sum (replicate 32 7 @ [2])) [2]
     \<lparr>R_V = replicate 32 7 @ [2], R_K = replicate 32 7, R_Sig = replicate 64 0,
      R_Seq = Some 1\<rparr> =
     Returns (Some \<lparr>Seq = 0, V = replicate 32 7 @ [2], Sig = replicate 64 0,
       Mutable = False\<rparr>) \<and>
   example_Sum (replicate 32 7 @ [2]) = example_Sum (replicate 32 7 @ [2]) \<and>
   example_Verify (replicate 32 7) [2] 1 (replicate 32 7 @ [2]) (replicate 64 0)"
  by (simp add: classify_def example_Verify_def)

text \<open>
  Claim C6, amended. For a reply that carries a sequence number whenever the digest of
  its value misses the target and the digest of its key and the salt matches it: the
  reply is offered as an immutable candidate exactly when the digest of its value is the
  target; as a mutable candidate exactly when that digest is not the target, the digest
  of key and salt is, and the signature verifies over key, salt, sequence number and
  value; otherwise nothing is offered. In each case the query function returns and hands
  its query result to the traversal. A candidate offered carries the reply's value and
  signature, and its sequence number when mutable. So at least one of the two conditions
  holds for every candidate, and the first has priority when both hold.
\<close>

theorem DoQuery_accepts:
  assumes "Reply_R (sGet addr (Target inp) (query_seq inp)) = Some r"
    and "sha1_Sum (R_V r) = Target inp \<or> sha1_Sum (R_K r @ query_salt inp) \<noteq> Target inp \<or>
         R_Seq r \<noteq> None"
  shows "\<exists>c. DoQuery sha1_Sum bep44_Verify sGet inp addr =
           Returns (c, closestData
             (TraversalQueryResult (sGet addr (Target inp) (query_seq inp)) addr)) \<and>
     classify sha1_Sum bep44_Verify (Target inp) (query_salt inp) r = Returns c \<and>
     ((\<exists>x. c = Some x \<and> \<not> Mutable x) \<longleftrightarrow> sha1_Sum (R_V r) = Target inp) \<and>
     ((\<exists>x. c = Some x \<and> Mutable x) \<longleftrightarrow>
        sha1_Sum (R_V r) \<noteq> Target inp \<and> sha1_Sum (R_K r @ query_salt inp) = Target inp \<and>
        (\<exists>q. R_Seq r = Some q \<and> bep44_Verify (R_K r) (query_salt inp) q (R_V r) (R_Sig r))) \<and>
     (\<forall>x. c = Some x \<longrightarrow>
        V x = R_V r \<and> Sig x = R_Sig r \<and> (Mutable x \<longrightarrow> R_Seq r = Some (Seq x)))"
proof -
  have "\<exists>c. classify sha1_Sum bep44_Verify (Target inp) (query_salt inp) r = Returns c"
    using assms(2) by (auto simp: classify_def split: option.splits)
  then obtain c where
    c: "classify sha1_Sum bep44_Verify (Target inp) (query_salt inp) r = Returns c" ..
  have "DoQuery sha1_Sum bep44_Verify sGet inp addr =
      Returns (c, closestData (TraversalQueryResult (sGet addr (Target inp) (query_seq inp)) addr))"
    using assms(1) c by (simp add: DoQuery_def Let_def)
  moreover have "(\<exists>x. c = Some x \<and> \<not> Mutable x) \<longleftrightarrow> sha1_Sum (R_V r) = Target inp"
    using c assms(2) by (auto simp: classify_def split: option.splits if_splits)
  moreover have "(\<exists>x. c = Some x \<and> Mutable x) \<longleftrightarrow>
        sha1_Sum (R_V r) \<noteq> Target inp \<and> sha1_Sum (R_K r @ query_salt inp) = Target inp \<and>
        (\<exists>q. R_Seq r = Some q \<and> bep44_Verify (R_K r) (query_salt inp) q (R_V r) (R_Sig r))"
    using c assms(2) by (auto simp: classify_def split: option.splits if_splits)
  moreover have "\<forall>x. c = Some x \<longrightarrow>
        V x = R_V r \<and> Sig x = R_Sig r \<and> (Mutable x \<longrightarrow> R_Seq r = Some (Seq x))"
    using c assms(2) by (auto simp: classify_def split: option.splits if_splits)
  ultimately show ?thesis using c by blast
qed

text \<open>
  Claim C6, amended, on a signed reply whose key and salt, but not whose value, give the
  target: it is offered as a mutable candidate, and the query result goes back to the
  traversal with the node's token.
\<close>

theorem DoQuery_accepts_witness:
  "Reply_R (example_sGet 3 (example_Sum (replicate 32 7 @ [2])) None) =
     Some \<lparr>R_V = [5], R_K = replicate 32 7, R_Sig = replicate 64 0, R_Seq = Some 1\<rparr> \<and>
   R_Seq \<lparr>R_V = [5], R_K = replicate 32 7, R_Sig = replicate 64 0, R_Seq = Some 1\<rparr> \<noteq> None \<and>
   DoQuery example_Sum example_Verify example_sGet
     \<lparr>Alpha = 15, Target = example_Sum (replicate 32 7 @ [2]), query_seq = None,
      query_salt = [2]\<rparr> 3 =
     Returns (Some \<lparr>Seq = 1, V = [5], Sig = replicate 64 0, Mutable = True\<rparr>,
       \<lparr>ResponseFrom = Some 3, ClosestData = AnyString ''tok'', Nodes = [], Nodes6 = []\<rparr>)"
proof -
  let ?r = "\<lparr>R_V = [5], R_K = replicate 32 7, R_Sig = replicate 64 0, R_Seq = Some 1\<rparr>"
  let ?t = "example_Sum (replicate 32 7 @ [2])"
  let ?inp = "\<lparr>Alpha = 15, Target = ?t, query_seq = None, query_salt = [2]\<rparr>"
  have h1: "Reply_R (example_sGet 3 (Target ?inp) (query_seq ?inp)) = Some ?r"
    by (simp add: example_sGet_def)
  have h2: "example_Sum (R_V ?r) = Target ?inp \<or>
      example_Sum (R_K ?r @ query_salt ?inp) \<noteq> Target ?inp \<or> R_Seq ?r \<noteq> None"
    by simp
  have ne: "example_Sum (R_V ?r) \<noteq> ?t"
    by (simp add: example_Sum_def) code_simp
  obtain c where d: "DoQuery example_Sum example_Verify example_sGet ?inp 3 =
        Returns (c, closestData
          (TraversalQueryResult (example_sGet 3 (Target ?inp) (query_seq ?inp)) 3))"
    and m: "(\<exists>x. c = Some x \<and> Mutable x) \<longleftrightarrow>
        example_Sum (R_V ?r) \<noteq> Target ?inp \<and>
        example_Sum (R_K ?r @ query_salt ?inp) = Target ?inp \<and>
        (\<exists>q. R_Seq ?r = Some q \<and> example_Verify (R_K ?r) (query_salt ?inp) q (R_V ?r) (R_Sig ?r))"
    and f: "\<forall>x. c = Some x \<longrightarrow>
        V x = R_V ?r \<and> Sig x = R_Sig ?r \<and> (Mutable x \<longrightarrow> R_Seq ?r = Some (Seq x))"
    using DoQuery_accepts
      [of example_sGet 3 "?inp" "?r" example_Sum example_Verify, OF h1 h2] by blast
  have "\<exists>x. c = Some x \<and> Mutable x" using m ne by (simp add: example_Verify_def)
  then obtain x where x: "c = Some x" "Mutable x" by blast
  then have "V x = [5] \<and> Sig x = replicate 64 0 \<and> Seq x = 1" using f by simp
  then have "x = \<lparr>Seq = 1, V = [5], Sig = replicate 64 0, Mutable = True\<rparr>"
    using x(2) by (cases x) simp
  moreover have "closestData (TraversalQueryResult (example_sGet 3 (Target ?inp) (query_seq ?inp)) 3) =
      \<lparr>ResponseFrom = Some 3, ClosestData = AnyString ''tok'', Nodes = [], Nodes6 = []\<rparr>"
    by (simp add: example_sGet_def example_tqr_def closestData_def)
  ultimately show ?thesis using d x(1) h1 by simp
qed

text \<open>
  Claim C10 says that a node whose query produced no usable token is excluded from the
  closest set, which is done by clearing \<^verbatim>\<open>ResponseFrom\<close> in its query result. For the
  query result of a node that replied without a token (\<^verbatim>\<open>ClosestData\<close> nil), the code
  hands back \<^verbatim>\<open>ResponseFrom\<close> as it was, with the empty string for token: line 76 has
  stored a string in the field, so the test of line 77 does not hold.
\<close>

theorem closestData_keeps_node_without_token:
  "closestData \<lparr>ResponseFrom = Some (7::nat), ClosestData = AnyNil, Nodes = [], Nodes6 = []\<rparr> =
     \<lparr>ResponseFrom = Some 7, ClosestData = AnyString [], Nodes = [], Nodes6 = []\<rparr>"
  by (simp add: closestData_def)

end
